theory Spec2Isabelle
  imports Main "HOL-Library.Sublist" "HOL-Library.Signed_Division"
begin

section \<open>Strings and runes\<close>

text \<open>
  A Go string is a sequence of bytes, here a \<open>string\<close> (a list of 8-bit characters).
  \<open>strings.HasPrefix(s, prefix)\<close> is
  \<^verbatim>\<open>len(s) >= len(prefix) && s[:len(prefix)] == prefix\<close>.
\<close>

definition HasPrefix :: "string \<Rightarrow> string \<Rightarrow> bool" where
  "HasPrefix s p = (length p \<le> length s \<and> take (length p) s = p)"

text \<open>
  \<open>utf8.DecodeRuneInString\<close> of the Go standard library: the first rune of a string and
  the number of bytes it takes. An ASCII byte is its own rune; a lead byte \<open>0xC2..0xF4\<close>
  announces 2, 3 or 4 bytes, whose second byte lies in a range that depends on the lead
  byte; anything else is \<open>RuneError\<close> of width 1 (width 0 on the empty string).
\<close>

definition RuneError :: nat where
  "RuneError = 0xFFFD"

fun DecodeRuneInString :: "string \<Rightarrow> nat \<times> nat" where
  "DecodeRuneInString [] = (RuneError, 0)"
| "DecodeRuneInString (c # cs) =
     (let s0 = (of_char c :: nat) in
      if s0 < 0x80 then (s0, 1)
      else if s0 < 0xC2 \<or> 0xF4 < s0 then (RuneError, 1)
      else
        let sz = (if s0 < 0xE0 then 2 else if s0 < 0xF0 then 3 else (4::nat));
            lo = (if s0 = 0xE0 then 0xA0 else if s0 = 0xF0 then 0x90 else (0x80::nat));
            hi = (if s0 = 0xED then 0x9F else if s0 = 0xF4 then 0x8F else (0xBF::nat))
        in
          if Suc (length cs) < sz then (RuneError, 1)
          else
            let s1 = (of_char (cs ! 0) :: nat) in
            if s1 < lo \<or> hi < s1 then (RuneError, 1)
            else if sz \<le> 2 then ((s0 mod 32) * 64 + s1 mod 64, 2)
            else
              let s2 = (of_char (cs ! 1) :: nat) in
              if s2 < 0x80 \<or> 0xBF < s2 then (RuneError, 1)
              else if sz \<le> 3 then ((s0 mod 16) * 4096 + (s1 mod 64) * 64 + s2 mod 64, 3)
              else
                let s3 = (of_char (cs ! 2) :: nat) in
                if s3 < 0x80 \<or> 0xBF < s3 then (RuneError, 1)
                else ((s0 mod 8) * 262144 + (s1 mod 64) * 4096 + (s2 mod 64) * 64
                      + s3 mod 64, 4))"

text \<open>
  \<open>unicode.IsLower\<close>: on ASCII the lower-case letters are \<open>a..z\<close>. Beyond ASCII the
  answer comes from the Unicode tables of the Go release, which are not part of this
  package; they are the parameter \<open>tab\<close>.
\<close>

definition IsLower :: "(nat \<Rightarrow> bool) \<Rightarrow> nat \<Rightarrow> bool" where
  "IsLower tab r = (if r < 0x80 then 0x61 \<le> r \<and> r \<le> 0x7A else tab r)"

section \<open>The entry-point classifier\<close>

text \<open>
  \<^verbatim>\<open>
  func isTest(name, prefix string) bool {
      if !strings.HasPrefix(name, prefix) { return false }
      if len(name) == len(prefix) { return true }   // "Test" is ok
      rune, _ := utf8.DecodeRuneInString(name[len(prefix):])
      return !unicode.IsLower(rune)
  }
  \<close>
\<close>

definition isTest :: "(nat \<Rightarrow> bool) \<Rightarrow> string \<Rightarrow> string \<Rightarrow> bool" where
  "isTest tab name pfx =
     (if \<not> HasPrefix name pfx then False
      else if length name = length pfx then True
      else \<not> IsLower tab (fst (DecodeRuneInString (drop (length pfx) name))))"

section \<open>Formatting\<close>

text \<open>
  The verb \<open>%d\<close> of \<open>fmt\<close> prints an integer in decimal, with a minus sign when it is
  negative; \<open>%s\<close> copies a string.
\<close>

fun decimal :: "nat \<Rightarrow> string" where
  "decimal n =
     (if n < 10 then [''0123456789'' ! n]
      else decimal (n div 10) @ [''0123456789'' ! (n mod 10)])"

declare decimal.simps [simp del]

definition fmt_d :: "int \<Rightarrow> string" where
  "fmt_d i = (if i < 0 then CHR ''-'' # decimal (nat (- i)) else decimal (nat i))"

text \<open>
  \<open>strings.Split(s, sep)\<close> for a separator of one byte: the pieces between the
  separators, in order; a string without the separator is the only piece.
\<close>

fun Split :: "string \<Rightarrow> char \<Rightarrow> string list" where
  "Split [] sep = [[]]"
| "Split (c # cs) sep =
     (if c = sep then [] # Split cs sep
      else (case Split cs sep of [] \<Rightarrow> [[c]] | p # ps \<Rightarrow> (c # p) # ps))"

section \<open>The call-stack attribution\<close>

text \<open>
  \<open>runtime.Caller(i)\<close> reports the file and line of the \<open>i\<close>-th frame of the calling
  goroutine, frame 0 being the function that asks, and \<open>ok = false\<close> past the outermost
  frame. \<open>runtime.FuncForPC\<close> gives the function of a frame, or nil. The stack is the
  list of its frames, innermost first.
\<close>

record frame =
  frame_file :: string
        frame_line :: int
        frame_func :: "string option"

datatype error = IndexOutOfRange

definition last_caller :: "string list \<Rightarrow> string" where
  "last_caller callers =
     (if 0 < length callers then callers ! (length callers - 1) else [])"

text \<open>
  \<^verbatim>\<open>
  callers := []string{}
  for i := 0; ; i++ {
      pc, file, line, ok = runtime.Caller(i)
      if !ok { return "" }
      if file == "<autogenerated>" { break }
      parts := strings.Split(file, "/")
      dir := parts[len(parts)-2]
      file = parts[len(parts)-1]
      if (dir != "assert" && dir != "mock" && dir != "require") || file == "mock_test.go" {
          callers = append(callers, fmt.Sprintf("%s:%d", file, line))
      }
      f := runtime.FuncForPC(pc)
      if f == nil { break }
      name = f.Name()
      segments := strings.Split(name, ".")
      name = segments[len(segments)-1]
      if isTest(name, "Test") || isTest(name, "Benchmark") || isTest(name, "Example") { break }
  }
  if len(callers) > 0 { return callers[len(callers)-1] }
  return ""
  \<close>
  The loop is \<open>walk\<close>, on the frames not yet visited and the tokens collected so far.
  \<open>parts[len(parts)-2]\<close> is out of range, a run-time panic, when the file has no \<open>/\<close>.
\<close>

fun walk :: "(nat \<Rightarrow> bool) \<Rightarrow> frame list \<Rightarrow> string list \<Rightarrow> error + string" where
  "walk tab [] callers = Inr []"
| "walk tab (f # fs) callers =
     (if frame_file f = ''<autogenerated>'' then Inr (last_caller callers)
      else
        let parts = Split (frame_file f) (CHR ''/'') in
        if length parts < 2 then Inl IndexOutOfRange
        else
          let dir = parts ! (length parts - 2);
              fl = parts ! (length parts - 1);
              callers' =
                (if (dir \<noteq> ''assert'' \<and> dir \<noteq> ''mock'' \<and> dir \<noteq> ''require'')
                    \<or> fl = ''mock_test.go''
                 then callers @ [fl @ '':'' @ fmt_d (frame_line f)]
                 else callers)
          in
            case frame_func f of
              None \<Rightarrow> Inr (last_caller callers')
            | Some nm \<Rightarrow>
                let segments = Split nm (CHR ''.'');
                    short = segments ! (length segments - 1)
                in
                  if isTest tab short ''Test'' \<or> isTest tab short ''Benchmark''
                     \<or> isTest tab short ''Example''
                  then Inr (last_caller callers')
                  else walk tab fs callers')"

definition CallerInfo :: "(nat \<Rightarrow> bool) \<Rightarrow> frame list \<Rightarrow> error + string" where
  "CallerInfo tab stack = walk tab stack []"

section \<open>The fail primitive and the assertions\<close>

text \<open>
  A call either returns, or ends the goroutine (\<open>runtime.Goexit\<close>, which is how
  \<open>testing.T.FailNow\<close> stops a test), or panics. Neither of the last two is caught
  anywhere in the package, so both unwind every caller up to the top of the goroutine.
\<close>

datatype outcome = Returned | Goexit | Panicked

text \<open>
  What the package sees of \<open>testing.T\<close>: the failure flag and the messages logged.
  \<open>Fatalf\<close> is \<open>Logf\<close> followed by \<open>FailNow\<close>.
\<close>

record T =
  failed :: bool
  logged :: "string list"

definition Fatalf :: "string \<Rightarrow> T \<Rightarrow> outcome \<times> T" where
  "Fatalf msg t = (Goexit, t\<lparr>logged := logged t @ [msg], failed := True\<rparr>)"

text \<open>
  \<^verbatim>\<open>
  func (t TestCase) Assert(v bool) {
      if !v { t.T.Fatalf("Expected true, got false [%s]", CallerInfo()) }
  }
  func (t TestCase) AssertFalse(v bool) {
      if v { t.T.Fatalf("Expected false, got true [%s]", CallerInfo()) }
  }
  \<close>
  The argument \<open>stack\<close> is the call stack that \<open>CallerInfo\<close> reads when it is called
  from the assertion. A panic inside \<open>CallerInfo\<close> leaves the assertion before
  \<open>Fatalf\<close> is reached.
\<close>

definition Assert :: "(nat \<Rightarrow> bool) \<Rightarrow> frame list \<Rightarrow> bool \<Rightarrow> T \<Rightarrow> outcome \<times> T" where
  "Assert tab stack v t =
     (if \<not> v then
        (case CallerInfo tab stack of
           Inl e \<Rightarrow> (Panicked, t)
         | Inr info \<Rightarrow> Fatalf (''Expected true, got false ['' @ info @ '']'') t)
      else (Returned, t))"

definition AssertFalse :: "(nat \<Rightarrow> bool) \<Rightarrow> frame list \<Rightarrow> bool \<Rightarrow> T \<Rightarrow> outcome \<times> T" where
  "AssertFalse tab stack v t =
     (if v then
        (case CallerInfo tab stack of
           Inl e \<Rightarrow> (Panicked, t)
         | Inr info \<Rightarrow> Fatalf (''Expected false, got true ['' @ info @ '']'') t)
      else (Returned, t))"

text \<open>
  \<^verbatim>\<open>
  func (t TestCase) AssertCreated(code int) {
      if code != http.StatusCreated { t.T.Fatalf("Expected 201, got %d", code) }
  }
  \<close>
\<close>

definition StatusCreated :: int where
  "StatusCreated = 201"

definition AssertCreated :: "int \<Rightarrow> T \<Rightarrow> outcome \<times> T" where
  "AssertCreated code t =
     (if code \<noteq> StatusCreated then Fatalf (''Expected 201, got '' @ fmt_d code) t
      else (Returned, t))"

section \<open>The dispatcher\<close>

text \<open>
  A test-case value is seen through reflection only: the methods of its method set, in
  the order \<open>Type.Method(i)\<close> lists them. A method has a name, may or may not accept
  the empty argument list that \<open>Call(nil)\<close> passes, and its body acts on the state of
  the test. The state is any type \<open>'s\<close>.
\<close>

record 's Method =
  name :: string
  needs_args :: bool
  body :: "'s \<Rightarrow> outcome \<times> 's"

text \<open>
  What a run does is recorded as a list of events: a method entered through
  \<open>Call\<close>, or a line printed.
\<close>

datatype event = Invoked string | Printed string

text \<open>
  \<open>Value.MethodByName\<close> returns the method of that name, or the zero \<open>Value\<close> when
  there is none. \<open>Value.Call\<close> panics on the zero \<open>Value\<close> and on a method that wants
  arguments; otherwise it runs the method.
\<close>

definition MethodByName :: "'s Method list \<Rightarrow> string \<Rightarrow> 's Method option" where
  "MethodByName v n = find (\<lambda>m. name m = n) v"

definition Call :: "'s Method option \<Rightarrow> 's \<Rightarrow> outcome \<times> event list \<times> 's" where
  "Call f s =
     (case f of
        None \<Rightarrow> (Panicked, [], s)
      | Some m \<Rightarrow>
          if needs_args m then (Panicked, [], s)
          else (case body m s of (oc, s') \<Rightarrow> (oc, [Invoked (name m)], s')))"

text \<open>
  Sequencing: the second step runs only when the first has returned; its events follow
  those of the first.
\<close>

definition and_then ::
  "outcome \<times> event list \<times> 's \<Rightarrow> ('s \<Rightarrow> outcome \<times> event list \<times> 's) \<Rightarrow> outcome \<times> event list \<times> 's"
where
  "and_then r k =
     (case r of (oc, es, s) \<Rightarrow>
        if oc = Returned then (case k s of (oc', es', s') \<Rightarrow> (oc', es @ es', s'))
        else (oc, es, s))"

text \<open>
  \<^verbatim>\<open>
  func Run(i interface{}) {
      value := reflect.ValueOf(i)
      testType := reflect.TypeOf(i)
      var be bool
      var ba bool
      for i := 0; i < testType.NumMethod(); i++ {
          method := testType.Method(i)
          if strings.HasPrefix(method.Name, "BeforeEach") {
              be = true
          } else if strings.HasPrefix(method.Name, "BeforeAll") {
              ba = true
          }
      }
      if ba { value.MethodByName("BeforeAll").Call(nil) }
      fmt.Printf("===> Running tests...\n")
      for i := 0; i < testType.NumMethod(); i++ {
          method := testType.Method(i)
          if strings.HasPrefix(method.Name, "Test") {
              if be { value.MethodByName("BeforeEach").Call(nil) }
              finalMethod := value.MethodByName(method.Name)
              finalMethod.Call(nil)
          }
      }
  }
  \<close>
  \<open>find_hooks\<close> is the first loop, on the pair \<open>(be, ba)\<close>; \<open>run_tests\<close> is the second.
\<close>

fun find_hooks :: "'s Method list \<Rightarrow> bool \<times> bool \<Rightarrow> bool \<times> bool" where
  "find_hooks [] (be, ba) = (be, ba)"
| "find_hooks (m # ms) (be, ba) =
     (if HasPrefix (name m) ''BeforeEach'' then find_hooks ms (True, ba)
      else if HasPrefix (name m) ''BeforeAll'' then find_hooks ms (be, True)
      else find_hooks ms (be, ba))"

fun run_tests :: "'s Method list \<Rightarrow> bool \<Rightarrow> 's Method list \<Rightarrow> 's \<Rightarrow> outcome \<times> event list \<times> 's" where
  "run_tests v be [] s = (Returned, [], s)"
| "run_tests v be (m # ms) s =
     (if HasPrefix (name m) ''Test'' then
        and_then (if be then Call (MethodByName v ''BeforeEach'') s else (Returned, [], s))
          (\<lambda>s1. and_then (Call (MethodByName v (name m)) s1)
             (\<lambda>s2. run_tests v be ms s2))
      else run_tests v be ms s)"

definition banner :: string where
  "banner = ''===> Running tests...'' @ [char_of (10::nat)]"

definition Run :: "'s Method list \<Rightarrow> 's \<Rightarrow> outcome \<times> event list \<times> 's" where
  "Run v s =
     (case find_hooks v (False, False) of (be, ba) \<Rightarrow>
        and_then (if ba then Call (MethodByName v ''BeforeAll'') s else (Returned, [], s))
          (\<lambda>s1. and_then (Returned, [Printed banner], s1)
             (\<lambda>s2. run_tests v be v s2)))"

section \<open>Vocabulary of the properties\<close>

text \<open>The outcome and the events of a run.\<close>

definition result :: "outcome \<times> event list \<times> 's \<Rightarrow> outcome" where
  "result r = fst r"

definition events :: "outcome \<times> event list \<times> 's \<Rightarrow> event list" where
  "events r = fst (snd r)"

text \<open>A test operation is a method whose name begins with \<open>Test\<close>.\<close>

definition is_test :: "'s Method \<Rightarrow> bool" where
  "is_test m = HasPrefix (name m) ''Test''"

fun is_test_event :: "event \<Rightarrow> bool" where
  "is_test_event (Invoked n) = HasPrefix n ''Test''"
| "is_test_event (Printed l) = False"

text \<open>
  What \<open>Run v\<close> does before it calls the test operation that follows the methods
  \<open>xs\<close> in the enumeration: the \<open>BeforeAll\<close> hook, the banner, the second loop over
  \<open>xs\<close>, and the \<open>BeforeEach\<close> hook of that test operation. Its state is the state in
  which that test operation starts.
\<close>

definition before_call :: "'s Method list \<Rightarrow> 's Method list \<Rightarrow> 's \<Rightarrow> outcome \<times> event list \<times> 's" where
  "before_call v xs s =
     (case find_hooks v (False, False) of (be, ba) \<Rightarrow>
        and_then (if ba then Call (MethodByName v ''BeforeAll'') s else (Returned, [], s))
          (\<lambda>s1. and_then (Returned, [Printed banner], s1)
             (\<lambda>s2. and_then (run_tests v be xs s2)
                (\<lambda>s3. if be then Call (MethodByName v ''BeforeEach'') s3
                      else (Returned, [], s3)))))"

text \<open>
  The words of the attribution contract, frame by frame. A frame has a directory when
  its file path has at least two components. It is excluded when that directory is one
  of \<open>assert\<close>, \<open>mock\<close>, \<open>require\<close> and the file is not \<open>mock_test.go\<close>. Its token is
  \<open>file:line\<close>, the file without its directories. It is an entry point when the last
  segment of its function name passes \<open>isTest\<close> for \<open>Test\<close>, \<open>Benchmark\<close> or \<open>Example\<close>.
  The walk stops at the first frame that is the \<open><autogenerated>\<close> sentinel, or has no
  function information, or is an entry point.
\<close>

definition has_dir :: "frame \<Rightarrow> bool" where
  "has_dir f = (2 \<le> length (Split (frame_file f) (CHR ''/'')))"

definition frame_dir :: "frame \<Rightarrow> string" where
  "frame_dir f = (let parts = Split (frame_file f) (CHR ''/'') in parts ! (length parts - 2))"

definition frame_base :: "frame \<Rightarrow> string" where
  "frame_base f = last (Split (frame_file f) (CHR ''/''))"

definition internal_dir :: "string \<Rightarrow> bool" where
  "internal_dir d = (d = ''assert'' \<or> d = ''mock'' \<or> d = ''require'')"

definition excluded :: "frame \<Rightarrow> bool" where
  "excluded f = (has_dir f \<and> internal_dir (frame_dir f) \<and> frame_base f \<noteq> ''mock_test.go'')"

definition token :: "frame \<Rightarrow> string" where
  "token f = frame_base f @ '':'' @ fmt_d (frame_line f)"

definition entry_point :: "(nat \<Rightarrow> bool) \<Rightarrow> frame \<Rightarrow> bool" where
  "entry_point tab f =
     (case frame_func f of
        None \<Rightarrow> False
      | Some nm \<Rightarrow>
          isTest tab (last (Split nm (CHR ''.''))) ''Test''
          \<or> isTest tab (last (Split nm (CHR ''.''))) ''Benchmark''
          \<or> isTest tab (last (Split nm (CHR ''.''))) ''Example'')"

definition stops :: "(nat \<Rightarrow> bool) \<Rightarrow> frame \<Rightarrow> bool" where
  "stops tab f =
     (frame_file f = ''<autogenerated>'' \<or> frame_func f = None \<or> entry_point tab f)"

definition walked :: "(nat \<Rightarrow> bool) \<Rightarrow> frame list \<Rightarrow> frame list" where
  "walked tab stack =
     takeWhile (\<lambda>f. \<not> stops tab f) stack @ take 1 (dropWhile (\<lambda>f. \<not> stops tab f) stack)"

definition accumulated :: "(nat \<Rightarrow> bool) \<Rightarrow> frame list \<Rightarrow> string list" where
  "accumulated tab stack =
     map token
       (filter (\<lambda>f. frame_file f \<noteq> ''<autogenerated>'' \<and> \<not> excluded f) (walked tab stack))"

definition last_or_empty :: "string list \<Rightarrow> string" where
  "last_or_empty xs = (if xs = [] then [] else last xs)"

section \<open>Prefixes\<close>

lemma HasPrefix_iff: "HasPrefix s p \<longleftrightarrow> (\<exists>rest. s = p @ rest)"
  unfolding HasPrefix_def
  by (metis append_eq_conv_conj length_append le_add1 append_take_drop_id)

lemma hooks_disjoint: "HasPrefix n ''BeforeEach'' \<Longrightarrow> \<not> HasPrefix n ''BeforeAll''"
  by (auto simp: HasPrefix_iff)

lemma test_not_hook:
  "HasPrefix n ''Test'' \<Longrightarrow> \<not> HasPrefix n ''BeforeEach'' \<and> \<not> HasPrefix n ''BeforeAll''"
  by (auto simp: HasPrefix_iff)

lemma find_hooks_eq:
  "find_hooks v (be, ba) =
     (be \<or> (\<exists>m \<in> set v. HasPrefix (name m) ''BeforeEach''),
      ba \<or> (\<exists>m \<in> set v. HasPrefix (name m) ''BeforeAll''))"
  by (induction v arbitrary: be ba) (auto dest: hooks_disjoint)

section \<open>Steps of a run\<close>

lemma MethodByName_distinct:
  "distinct (map name v) \<Longrightarrow> m \<in> set v \<Longrightarrow> MethodByName v (name m) = Some m"
  unfolding MethodByName_def by (induction v) auto

lemma MethodByName_Some: "MethodByName v n = Some h \<Longrightarrow> name h = n \<and> h \<in> set v"
  unfolding MethodByName_def by (auto simp: find_Some_iff)

lemma MethodByName_member:
  "m \<in> set v \<Longrightarrow> \<exists>m'. MethodByName v (name m) = Some m' \<and> name m' = name m \<and> m' \<in> set v"
  unfolding MethodByName_def by (cases "find (\<lambda>x. name x = name m) v") (auto simp: find_None_iff find_Some_iff)

lemma result_and_then:
  "result (and_then r k) = (if result r = Returned then result (k (snd (snd r))) else result r)"
  by (auto simp: and_then_def result_def split: prod.splits)

lemma events_and_then:
  "events (and_then r k) =
     (if result r = Returned then events r @ events (k (snd (snd r))) else events r)"
  by (auto simp: and_then_def result_def events_def split: prod.splits)

lemma Call_Some:
  "\<not> needs_args m \<Longrightarrow> Call (Some m) s = (fst (body m s), [Invoked (name m)], snd (body m s))"
  by (simp add: Call_def split: prod.splits)

lemma events_Call_subset: "set (events (Call (MethodByName v n) s)) \<subseteq> {Invoked n}"
  by (auto simp: Call_def events_def split: option.splits prod.splits dest: MethodByName_Some)

lemma Run_eq:
  "Run v s =
     and_then (if \<exists>m \<in> set v. HasPrefix (name m) ''BeforeAll''
               then Call (MethodByName v ''BeforeAll'') s else (Returned, [], s))
       (\<lambda>s1. and_then (Returned, [Printed banner], s1)
          (run_tests v (\<exists>m \<in> set v. HasPrefix (name m) ''BeforeEach'') v))"
  by (simp add: Run_def find_hooks_eq)

lemma run_tests_no_hook_method:
  assumes "MethodByName v ''BeforeEach'' = None"
  shows "run_tests v True ms s =
           (if \<exists>m \<in> set ms. is_test m then (Panicked, [], s) else (Returned, [], s))"
  using assms
  by (induction ms arbitrary: s) (auto simp: is_test_def Call_def and_then_def)

lemma run_tests_all_return:
  assumes "distinct (map name v)" "set ms \<subseteq> set v"
    "\<forall>m \<in> set ms. is_test m \<longrightarrow> \<not> needs_args m \<and> (\<forall>s. fst (body m s) = Returned)"
  shows "result (run_tests v False ms s) = Returned \<and>
         events (run_tests v False ms s) = map (\<lambda>m. Invoked (name m)) (filter is_test ms)"
  using assms(2,3)
proof (induction ms arbitrary: s)
  case Nil
  show ?case by (simp add: result_def events_def)
next
  case (Cons m ms)
  show ?case
  proof (cases "is_test m")
    case False
    with Cons show ?thesis by (simp add: is_test_def)
  next
    case True
    with Cons.prems have ok: "\<not> needs_args m" "\<And>s. fst (body m s) = Returned" and mv: "m \<in> set v"
      by auto
    have c: "Call (MethodByName v (name m)) s = (Returned, [Invoked (name m)], snd (body m s))"
      using MethodByName_distinct [OF assms(1) mv] ok by (simp add: Call_Some)
    have ih: "result (run_tests v False ms (snd (body m s))) = Returned \<and>
         events (run_tests v False ms (snd (body m s))) = map (\<lambda>m. Invoked (name m)) (filter is_test ms)"
      using Cons.IH Cons.prems by simp
    from True have t: "HasPrefix (name m) ''Test''" by (simp add: is_test_def)
    show ?thesis
      using ih True t c
      by (simp add: result_and_then events_and_then) (simp add: result_def events_def)
  qed
qed

lemma run_tests_no_tests:
  "\<forall>m \<in> set ms. \<not> is_test m \<Longrightarrow> run_tests v be ms s = (Returned, [], s)"
  by (induction ms) (auto simp: is_test_def)

lemma count_list_distinct:
  "distinct xs \<Longrightarrow> count_list xs x = (if x \<in> set xs then 1 else 0)"
  by (induction xs) auto

lemma count_list_Invoked: "count_list (map Invoked ns) (Invoked n) = count_list ns n"
  by (induction ns) auto

lemma and_then_events_subset:
  "set (events r) \<subseteq> A \<Longrightarrow> (result r = Returned \<Longrightarrow> set (events (k (snd (snd r)))) \<subseteq> A)
     \<Longrightarrow> set (events (and_then r k)) \<subseteq> A"
  by (simp add: events_and_then)

lemma and_then_assoc:
  "and_then (and_then r k1) k2 = and_then r (\<lambda>s. and_then (k1 s) k2)"
  by (cases r) (auto simp: and_then_def split: prod.splits)

lemma run_tests_append:
  "run_tests v be (xs @ ys) s = and_then (run_tests v be xs s) (run_tests v be ys)"
proof (induction xs arbitrary: s)
  case Nil
  show ?case by (simp add: and_then_def split: prod.splits)
next
  case (Cons x xs)
  have IH: "(\<lambda>s. run_tests v be (xs @ ys) s)
              = (\<lambda>s. and_then (run_tests v be xs s) (run_tests v be ys))"
    using Cons.IH by (rule ext)
  show ?case
    by (simp add: IH and_then_assoc)
qed

lemma Run_split:
  assumes "distinct (map name v)" and "v = xs @ m # ys" and "is_test m"
  shows "Run v s =
     and_then (before_call v xs s)
       (\<lambda>s'. and_then (Call (Some m) s')
          (run_tests v (\<exists>m \<in> set v. HasPrefix (name m) ''BeforeEach'') ys))"
proof -
  let ?be = "\<exists>m \<in> set v. HasPrefix (name m) ''BeforeEach''"
  have mv: "m \<in> set v" using assms(2) by simp
  have byname: "MethodByName v (name m) = Some m"
    using MethodByName_distinct [OF assms(1) mv] .
  have t: "HasPrefix (name m) ''Test''" using assms(3) by (simp add: is_test_def)
  have step: "run_tests v ?be (m # ys)
      = (\<lambda>s3. and_then (if ?be then Call (MethodByName v ''BeforeEach'') s3 else (Returned, [], s3))
          (\<lambda>s'. and_then (Call (Some m) s') (run_tests v ?be ys)))"
    using t by (intro ext) (simp add: byname)
  have loop: "run_tests v ?be v
      = (\<lambda>s2. and_then (and_then (run_tests v ?be xs s2)
            (\<lambda>s3. if ?be then Call (MethodByName v ''BeforeEach'') s3 else (Returned, [], s3)))
          (\<lambda>s'. and_then (Call (Some m) s') (run_tests v ?be ys)))"
    by (intro ext) (simp only: assms(2) [symmetric] run_tests_append [of v ?be xs "m # ys", folded assms(2)] step and_then_assoc)
  show ?thesis
    by (simp only: Run_eq loop before_call_def find_hooks_eq and_then_assoc prod.case simp_thms)
qed

lemma run_tests_events_names:
  "set (events (run_tests v be ms s))
     \<subseteq> insert (Invoked ''BeforeEach'') ((\<lambda>m. Invoked (name m)) ` set (filter is_test ms))"
proof (induction ms arbitrary: s)
  case Nil
  show ?case by (simp add: events_def)
next
  case (Cons m ms)
  let ?A = "insert (Invoked ''BeforeEach'')
              ((\<lambda>m. Invoked (name m)) ` set (filter is_test (m # ms)))"
  have sub: "set (events (run_tests v be ms s2)) \<subseteq> ?A" for s2
    using Cons.IH [of s2] by auto
  show ?case
  proof (cases "HasPrefix (name m) ''Test''")
    case False
    with sub show ?thesis by simp
  next
    case True
    let ?hook = "if be then Call (MethodByName v ''BeforeEach'') s else (Returned, [], s)"
    let ?rest = "\<lambda>s1. and_then (Call (MethodByName v (name m)) s1) (\<lambda>s2. run_tests v be ms s2)"
    have hook_ev: "set (events ?hook) \<subseteq> ?A"
      using events_Call_subset [of v "''BeforeEach''" s] by (auto simp: events_def)
    have call_ev: "set (events (Call (MethodByName v (name m)) s1)) \<subseteq> ?A" for s1
      using events_Call_subset [of v "name m" s1] True by (auto simp: is_test_def)
    have rest_ev: "set (events (?rest s1)) \<subseteq> ?A" for s1
      by (rule and_then_events_subset) (simp_all only: call_ev sub)
    have "set (events (and_then ?hook ?rest)) \<subseteq> ?A"
      by (rule and_then_events_subset) (simp_all only: hook_ev rest_ev)
    with True show ?thesis by simp
  qed
qed

lemma before_call_events:
  "set (events (before_call v xs s))
     \<subseteq> {Invoked ''BeforeAll'', Printed banner, Invoked ''BeforeEach''}
       \<union> (\<lambda>m. Invoked (name m)) ` set (filter is_test xs)"
proof -
  let ?A = "{Invoked ''BeforeAll'', Printed banner, Invoked ''BeforeEach''}
       \<union> (\<lambda>m. Invoked (name m)) ` set (filter is_test xs)"
  let ?be = "\<exists>m \<in> set v. HasPrefix (name m) ''BeforeEach''"
  define r0 where "r0 = (if \<exists>m \<in> set v. HasPrefix (name m) ''BeforeAll''
             then Call (MethodByName v ''BeforeAll'') s else (Returned, [], s))"
  have e0: "set (events r0) \<subseteq> ?A"
    using events_Call_subset [of v "''BeforeAll''" s] by (auto simp: r0_def events_def)
  have e1: "set (events (Returned, [Printed banner], s1)) \<subseteq> ?A" for s1 :: 's
    by (simp add: events_def)
  have e2: "set (events (run_tests v ?be xs s2)) \<subseteq> ?A" for s2
    using run_tests_events_names [of v ?be xs s2] by auto
  have e3: "set (events (if ?be then Call (MethodByName v ''BeforeEach'') s3
                      else (Returned, [], s3))) \<subseteq> ?A" for s3
    using events_Call_subset [of v "''BeforeEach''" s3] by (auto simp: events_def)
  have e23: "set (events (and_then (run_tests v ?be xs s2)
                (\<lambda>s3. if ?be then Call (MethodByName v ''BeforeEach'') s3
                      else (Returned, [], s3)))) \<subseteq> ?A" for s2
    by (rule and_then_events_subset) (simp_all only: e2 e3)
  have e123: "set (events (and_then (Returned, [Printed banner], s1)
             (\<lambda>s2. and_then (run_tests v ?be xs s2)
                (\<lambda>s3. if ?be then Call (MethodByName v ''BeforeEach'') s3
                      else (Returned, [], s3))))) \<subseteq> ?A" for s1
    by (rule and_then_events_subset) (simp_all only: e1 e23)
  have "set (events (and_then r0 (\<lambda>s1. and_then (Returned, [Printed banner], s1)
             (\<lambda>s2. and_then (run_tests v ?be xs s2)
                (\<lambda>s3. if ?be then Call (MethodByName v ''BeforeEach'') s3
                      else (Returned, [], s3)))))) \<subseteq> ?A"
    by (rule and_then_events_subset) (simp_all only: e0 e123)
  then show ?thesis
    by (simp only: before_call_def find_hooks_eq prod.case simp_thms r0_def)
qed

lemma run_tests_with_hook:
  assumes "MethodByName v ''BeforeEach'' = Some h" "\<not> needs_args h"
    "\<forall>s. fst (body h s) = Returned"
    "\<forall>m \<in> set v. is_test m \<longrightarrow> \<not> needs_args m"
  shows "set ms \<subseteq> set v \<Longrightarrow>
     \<exists>k. events (run_tests v True ms s)
           = concat (map (\<lambda>m. [Invoked ''BeforeEach'', Invoked (name m)])
                       (take k (filter is_test ms)))"
proof (induction ms arbitrary: s)
  case Nil
  show ?case by (simp add: events_def)
next
  case (Cons m ms)
  show ?case
  proof (cases "is_test m")
    case False
    with Cons show ?thesis by (simp add: is_test_def)
  next
    case True
    then have t: "HasPrefix (name m) ''Test''" by (simp add: is_test_def)
    have nh: "name h = ''BeforeEach''"
      using MethodByName_Some [OF assms(1)] by simp
    let ?s1 = "snd (body h s)"
    have hook: "Call (MethodByName v ''BeforeEach'') s = (Returned, [Invoked ''BeforeEach''], ?s1)"
      using assms(2,3) by (simp add: assms(1) Call_Some nh)
    from Cons.prems have "m \<in> set v" by simp
    then obtain m' where m': "MethodByName v (name m) = Some m'" "name m' = name m" "m' \<in> set v"
      using MethodByName_member by blast
    then have "is_test m'" using True by (simp add: is_test_def)
    with assms(4) m'(3) have "\<not> needs_args m'" by blast
    then have call: "Call (MethodByName v (name m)) ?s1
                       = (fst (body m' ?s1), [Invoked (name m)], snd (body m' ?s1))"
      by (simp add: m' Call_Some)
    let ?s2 = "snd (body m' ?s1)"
    from Cons.IH Cons.prems obtain k where
      k: "events (run_tests v True ms ?s2)
           = concat (map (\<lambda>m. [Invoked ''BeforeEach'', Invoked (name m)])
                       (take k (filter is_test ms)))"
      by auto
    have ev: "events (run_tests v True (m # ms) s)
               = [Invoked ''BeforeEach'', Invoked (name m)]
                 @ (if fst (body m' ?s1) = Returned then events (run_tests v True ms ?s2) else [])"
      using t by (simp add: hook call events_and_then) (simp add: result_def events_def)
    show ?thesis
    proof (cases "fst (body m' ?s1) = Returned")
      case True
      have "events (run_tests v True (m # ms) s)
              = concat (map (\<lambda>m. [Invoked ''BeforeEach'', Invoked (name m)])
                          (take (Suc k) (filter is_test (m # ms))))"
        unfolding ev using True \<open>is_test m\<close> by (simp add: k)
      then show ?thesis by blast
    next
      case False
      have "events (run_tests v True (m # ms) s)
              = concat (map (\<lambda>m. [Invoked ''BeforeEach'', Invoked (name m)])
                          (take (Suc 0) (filter is_test (m # ms))))"
        unfolding ev using False \<open>is_test m\<close> by simp
      then show ?thesis by blast
    qed
  qed
qed

lemma count_hook_pairs:
  "\<forall>m \<in> set ts. is_test m \<Longrightarrow>
     count_list (concat (map (\<lambda>m. [Invoked ''BeforeEach'', Invoked (name m)]) ts))
                (Invoked ''BeforeEach'') = length ts \<and>
     length (filter is_test_event
               (concat (map (\<lambda>m. [Invoked ''BeforeEach'', Invoked (name m)]) ts))) = length ts"
proof (induction ts)
  case Nil
  show ?case by simp
next
  case (Cons m ts)
  then have "HasPrefix (name m) ''Test''" by (simp add: is_test_def)
  then have "name m \<noteq> ''BeforeEach''" by (auto simp: HasPrefix_def)
  moreover have "\<not> HasPrefix ''BeforeEach'' ''Test''" by (simp add: HasPrefix_def)
  ultimately show ?case
    using Cons \<open>HasPrefix (name m) ''Test''\<close> by simp
qed

lemma run_tests_events:
  "set (events (run_tests v be ms s))
     \<subseteq> insert (Invoked ''BeforeEach'') (Invoked ` {n. HasPrefix n ''Test''})"
proof (induction ms arbitrary: s)
  case Nil
  show ?case by (simp add: events_def)
next
  case (Cons m ms)
  let ?A = "insert (Invoked ''BeforeEach'') (Invoked ` {n. HasPrefix n ''Test''})"
  show ?case
  proof (cases "HasPrefix (name m) ''Test''")
    case False
    with Cons show ?thesis by simp
  next
    case True
    let ?hook = "if be then Call (MethodByName v ''BeforeEach'') s else (Returned, [], s)"
    let ?rest = "\<lambda>s1. and_then (Call (MethodByName v (name m)) s1) (\<lambda>s2. run_tests v be ms s2)"
    have hook_ev: "set (events ?hook) \<subseteq> ?A"
      using events_Call_subset [of v "''BeforeEach''" s] by (auto simp: events_def)
    have call_ev: "set (events (Call (MethodByName v (name m)) s1)) \<subseteq> ?A" for s1
      using events_Call_subset [of v "name m" s1] True by auto
    have rest_ev: "set (events (?rest s1)) \<subseteq> ?A" for s1
      by (rule and_then_events_subset) (simp_all only: call_ev Cons.IH)
    have "set (events (and_then ?hook ?rest)) \<subseteq> ?A"
      by (rule and_then_events_subset) (simp_all only: hook_ev rest_ev)
    with True show ?thesis by simp
  qed
qed

text \<open>
  A hook named exactly \<open>BeforeAll\<close> that accepts the empty argument list is the first
  thing \<open>Run\<close> invokes, and it is invoked once.
\<close>

lemma Run_BeforeAll_by_name:
  assumes "MethodByName v ''BeforeAll'' = Some h" and "\<not> needs_args h"
  shows "\<exists>es. events (Run v s) = Invoked ''BeforeAll'' # es \<and> Invoked ''BeforeAll'' \<notin> set es"
proof -
  let ?be = "\<exists>m \<in> set v. HasPrefix (name m) ''BeforeEach''"
  have h: "h \<in> set v" "name h = ''BeforeAll''"
    using MethodByName_Some [OF assms(1)] by simp_all
  moreover have "HasPrefix ''BeforeAll'' ''BeforeAll''"
    by (simp add: HasPrefix_def)
  ultimately have ba: "\<exists>m \<in> set v. HasPrefix (name m) ''BeforeAll''"
    by metis
  define s1 where "s1 = snd (body h s)"
  define loop where "loop = events (run_tests v ?be v s1)"
  have run: "Run v s = and_then (fst (body h s), [Invoked ''BeforeAll''], s1)
          (\<lambda>s1. and_then (Returned, [Printed banner], s1) (run_tests v ?be v))"
    using ba assms by (simp add: Run_eq Call_Some h s1_def)
  have ev: "events (Run v s)
      = Invoked ''BeforeAll'' # (if fst (body h s) = Returned then Printed banner # loop else [])"
    by (simp add: run events_and_then loop_def) (simp add: result_def events_def)
  have "\<not> HasPrefix ''BeforeAll'' ''Test''"
    by (simp add: HasPrefix_def)
  then have "Invoked ''BeforeAll'' \<notin> set loop"
    using run_tests_events [of v ?be v s1] by (auto simp: loop_def)
  then have "Invoked ''BeforeAll''
      \<notin> set (if fst (body h s) = Returned then Printed banner # loop else [])"
    by simp
  with ev show ?thesis by blast
qed

section \<open>Steps of the walk\<close>

lemma Split_nonempty: "Split s c \<noteq> []"
  by (induction s) (auto split: list.splits)

lemma last_caller_eq: "last_caller callers = last_or_empty callers"
  by (cases callers rule: rev_cases) (simp_all add: last_caller_def last_or_empty_def)

lemma has_dir_not_autogenerated: "has_dir f \<Longrightarrow> frame_file f \<noteq> ''<autogenerated>''"
  by (auto simp: has_dir_def)

lemma walk_step:
  "walk tab (f # fs) callers =
     (if frame_file f = ''<autogenerated>'' then Inr (last_or_empty callers)
      else if \<not> has_dir f then Inl IndexOutOfRange
      else if stops tab f
        then Inr (last_or_empty (if excluded f then callers else callers @ [token f]))
        else walk tab fs (if excluded f then callers else callers @ [token f]))"
  by (auto simp: Let_def has_dir_def excluded_def frame_dir_def frame_base_def token_def
      stops_def entry_point_def internal_dir_def last_caller_eq last_conv_nth Split_nonempty
      split: option.splits)

lemma walked_Cons:
  "walked tab (f # fs) = (if stops tab f then [f] else f # walked tab fs)"
  by (simp add: walked_def)

lemma walk_eq:
  "\<forall>f \<in> set (walked tab stack). frame_file f = ''<autogenerated>'' \<or> has_dir f \<Longrightarrow>
   walk tab stack callers
     = Inr (if \<exists>f \<in> set stack. stops tab f
            then last_or_empty (callers @ accumulated tab stack) else [])"
proof (induction stack arbitrary: callers)
  case Nil
  show ?case by simp
next
  case (Cons f fs)
  show ?case
  proof (cases "frame_file f = ''<autogenerated>''")
    case True
    then have "stops tab f" by (simp add: stops_def)
    with True show ?thesis
      by (simp add: walk_step accumulated_def walked_Cons del: walk.simps)
  next
    case False
    with Cons.prems have d: "has_dir f" by (simp add: walked_Cons split: if_splits)
    show ?thesis
    proof (cases "stops tab f")
      case True
      with False d show ?thesis
        by (simp add: walk_step accumulated_def walked_Cons del: walk.simps)
    next
      case ns: False
      with Cons.prems have
        "\<forall>f \<in> set (walked tab fs). frame_file f = ''<autogenerated>'' \<or> has_dir f"
        by (simp add: walked_Cons)
      from Cons.IH [OF this] False d ns show ?thesis
        by (simp add: walk_step accumulated_def walked_Cons del: walk.simps)
    qed
  qed
qed

lemma accumulated_all_excluded:
  "\<forall>f \<in> set (walked tab stack). excluded f \<Longrightarrow> accumulated tab stack = []"
  by (simp add: accumulated_def filter_empty_conv)

lemma walk_to_entry_point:
  assumes "has_dir u" and "\<not> internal_dir (frame_dir u)" and "entry_point tab u"
  shows "\<forall>f \<in> set inner. has_dir f \<and> \<not> stops tab f \<Longrightarrow>
     walk tab (inner @ u # outer) callers = Inr (token u)"
proof (induction inner arbitrary: callers)
  case Nil
  have "stops tab u" "\<not> excluded u"
    using assms by (simp_all add: stops_def excluded_def)
  then show ?case
    using assms(1) has_dir_not_autogenerated [OF assms(1)]
    by (simp add: walk_step last_or_empty_def del: walk.simps)
next
  case (Cons f fs)
  then have "has_dir f" "\<not> stops tab f" by simp_all
  then show ?case
    using Cons has_dir_not_autogenerated [of f] by (simp add: walk_step del: walk.simps)
qed

section \<open>The classifier\<close>

text \<open>
  Claim C7. With the prefix \<open>Test\<close>, \<open>isTest\<close> accepts \<open>Test\<close>, \<open>TestFoo\<close> and
  \<open>TestHTTP\<close> and rejects \<open>Testicular\<close>. In general it accepts exactly the names that
  are the prefix followed by nothing, or by a rest whose first rune is not a lower-case
  letter.
\<close>

theorem isTest_classifies:
  "isTest tab ''Test'' ''Test'' \<and> isTest tab ''TestFoo'' ''Test'' \<and>
   isTest tab ''TestHTTP'' ''Test'' \<and> \<not> isTest tab ''Testicular'' ''Test'' \<and>
   (isTest tab nm pfx \<longleftrightarrow>
      (\<exists>rest. nm = pfx @ rest \<and>
         (rest = [] \<or> \<not> IsLower tab (fst (DecodeRuneInString rest)))))"
proof -
  have ex: "isTest tab ''Test'' ''Test''" "isTest tab ''TestFoo'' ''Test''"
    "isTest tab ''TestHTTP'' ''Test''" "\<not> isTest tab ''Testicular'' ''Test''"
    by (simp_all add: isTest_def HasPrefix_def IsLower_def)
  have "isTest tab nm pfx \<longleftrightarrow>
      (\<exists>rest. nm = pfx @ rest \<and>
         (rest = [] \<or> \<not> IsLower tab (fst (DecodeRuneInString rest))))"
    unfolding isTest_def HasPrefix_iff by auto
  with ex show ?thesis by blast
qed

theorem isTest_classifies_witness:
  "isTest (\<lambda>r. False) ''TestFoo'' ''Test'' \<and>
   (\<exists>rest. ''TestFoo'' = ''Test'' @ rest \<and>
      (rest = [] \<or> \<not> IsLower (\<lambda>r. False) (fst (DecodeRuneInString rest))))"
  using isTest_classifies [of "\<lambda>r. False" "''TestFoo''" "''Test''"] by blast

section \<open>The arithmetic scenario\<close>

text \<open>
  Claim C8. Go evaluates \<open>1*4/2\<close>, \<open>-1+1\<close> and \<open>10/3\<close> exactly, with division
  truncating towards zero (\<open>sdiv\<close>). \<open>Assert(2 == 1*4/2)\<close>, \<open>Assert(0 == -1+1)\<close> and
  \<open>AssertFalse(4 == 10/3)\<close> return and leave the test state as it was, so the fail
  primitive is not called. \<open>AssertCreated(200)\<close> calls it: the goroutine exits, the test
  is marked failed and the message logged is \<open>Expected 201, got 200\<close>, which contains
  \<open>201\<close> and \<open>200\<close>.
\<close>

theorem arithmetic_scenario:
  "Assert tab stack (2 = (1 * 4) sdiv (2::int)) t = (Returned, t) \<and>
   Assert tab stack (0 = - 1 + (1::int)) t = (Returned, t) \<and>
   AssertFalse tab stack (4 = 10 sdiv (3::int)) t = (Returned, t) \<and>
   AssertCreated 200 t
     = (Goexit, t\<lparr>logged := logged t @ [''Expected 201, got 200''], failed := True\<rparr>) \<and>
   sublist ''201'' ''Expected 201, got 200'' \<and> sublist ''200'' ''Expected 201, got 200''"
proof -
  have d: "(10::int) sdiv 3 = 3" "(1 * 4) sdiv (2::int) = 2"
    by (simp_all add: signed_divide_int_def)
  have f: "fmt_d 200 = ''200''"
    by (simp add: fmt_d_def decimal.simps)
  have s1: "sublist ''201'' ''Expected 201, got 200''"
    unfolding sublist_def
    by (rule exI [of _ "''Expected ''"], rule exI [of _ "'', got 200''"]) simp
  have s2: "sublist ''200'' ''Expected 201, got 200''"
    unfolding sublist_def
    by (rule exI [of _ "''Expected 201, got ''"], rule exI [of _ "[]"]) simp
  show ?thesis
    using s1 s2
    by (simp add: Assert_def AssertFalse_def AssertCreated_def StatusCreated_def
        Fatalf_def d f)
qed

section \<open>Test selection by plain prefix\<close>

text \<open>
  Claim C10. \<open>Run\<close> selects its test operations with \<open>strings.HasPrefix\<close>, not with
  \<open>isTest\<close>. On the value with the methods \<open>Helper\<close> and \<open>Testicular\<close> it invokes
  \<open>Testicular\<close> and only that, although \<open>isTest\<close> rejects the name. In general, on a
  value without hooks whose test operations return, a method is invoked exactly when its
  name has the prefix \<open>Test\<close>.
\<close>

theorem Run_selects_by_prefix:
  "\<not> isTest tab ''Testicular'' ''Test'' \<and>
   Run [\<lparr>name = ''Helper'', needs_args = False, body = h\<rparr>,
        \<lparr>name = ''Testicular'', needs_args = False, body = b\<rparr>] s
     = (fst (b s), [Printed banner, Invoked ''Testicular''], snd (b s)) \<and>
   (distinct (map name v) \<and>
    (\<forall>m \<in> set v. \<not> HasPrefix (name m) ''BeforeAll'' \<and> \<not> HasPrefix (name m) ''BeforeEach'') \<and>
    (\<forall>m \<in> set v. is_test m \<longrightarrow> \<not> needs_args m \<and> (\<forall>s. fst (body m s) = Returned))
    \<longrightarrow> (\<forall>m \<in> set v. Invoked (name m) \<in> set (events (Run v s'))
                          \<longleftrightarrow> HasPrefix (name m) ''Test''))"
proof -
  have a: "\<not> isTest tab ''Testicular'' ''Test''"
    by (simp add: isTest_def HasPrefix_def IsLower_def)
  have b: "Run [\<lparr>name = ''Helper'', needs_args = False, body = h\<rparr>,
        \<lparr>name = ''Testicular'', needs_args = False, body = b\<rparr>] s
     = (fst (b s), [Printed banner, Invoked ''Testicular''], snd (b s))"
    by (simp add: HasPrefix_def Run_def and_then_def Call_def MethodByName_def
        split: prod.splits)
  have c: "\<forall>m \<in> set v. Invoked (name m) \<in> set (events (Run v s'))
                          \<longleftrightarrow> HasPrefix (name m) ''Test''"
    if d: "distinct (map name v)"
      and nh: "\<forall>m \<in> set v. \<not> HasPrefix (name m) ''BeforeAll'' \<and> \<not> HasPrefix (name m) ''BeforeEach''"
      and ok: "\<forall>m \<in> set v. is_test m \<longrightarrow> \<not> needs_args m \<and> (\<forall>s. fst (body m s) = Returned)"
  proof -
    have run: "Run v s' = and_then (Returned, [Printed banner], s') (run_tests v False v)"
      using nh by (simp add: Run_eq and_then_def split: prod.splits)
    have loop: "result (run_tests v False v s') = Returned"
      "events (run_tests v False v s') = map (\<lambda>m. Invoked (name m)) (filter is_test v)"
      using run_tests_all_return [OF d subset_refl ok] by simp_all
    have e: "events (Run v s') = Printed banner # map (\<lambda>m. Invoked (name m)) (filter is_test v)"
      using loop by (simp add: run events_and_then) (simp add: result_def events_def)
    show ?thesis
      by (auto simp: e is_test_def)
  qed
  from a b c show ?thesis by blast
qed

theorem Run_selects_by_prefix_witness:
  "Invoked ''Testicular''
     \<in> set (events (Run [\<lparr>name = ''Helper'', needs_args = False, body = AssertCreated 200\<rparr>,
                         \<lparr>name = ''Testicular'', needs_args = False, body = AssertCreated 201\<rparr>]
                        \<lparr>failed = False, logged = []\<rparr>)) \<and>
   Invoked ''Helper''
     \<notin> set (events (Run [\<lparr>name = ''Helper'', needs_args = False, body = AssertCreated 200\<rparr>,
                         \<lparr>name = ''Testicular'', needs_args = False, body = AssertCreated 201\<rparr>]
                        \<lparr>failed = False, logged = []\<rparr>))"
proof -
  let ?v = "[\<lparr>name = ''Helper'', needs_args = False, body = AssertCreated 200\<rparr>,
             \<lparr>name = ''Testicular'', needs_args = False, body = AssertCreated 201\<rparr>]"
  let ?t = "\<lparr>failed = False, logged = []\<rparr>"
  have h: "distinct (map name ?v) \<and>
    (\<forall>m \<in> set ?v. \<not> HasPrefix (name m) ''BeforeAll'' \<and> \<not> HasPrefix (name m) ''BeforeEach'') \<and>
    (\<forall>m \<in> set ?v. is_test m \<longrightarrow> \<not> needs_args m \<and> (\<forall>s. fst (body m s) = Returned))"
    by (simp add: is_test_def HasPrefix_def AssertCreated_def StatusCreated_def)
  have "\<forall>m \<in> set ?v. Invoked (name m) \<in> set (events (Run ?v ?t))
                          \<longleftrightarrow> HasPrefix (name m) ''Test''"
    using Run_selects_by_prefix
            [of "\<lambda>r. False" "AssertCreated 200" "AssertCreated 201" ?t ?v ?t] h
    by blast
  then show ?thesis by (simp add: HasPrefix_def)
qed

section \<open>Hooks found by prefix, called by name\<close>

text \<open>
  Claim C5 asks that a value with a method matching the \<open>BeforeAll\<close> prefix has that
  hook invoked exactly once, before anything else. At the value that exposes
  \<open>BeforeAllSetup\<close> and \<open>TestA\<close> the first loop sets \<open>ba\<close>,
  \<open>MethodByName("BeforeAll")\<close> is the zero \<open>Value\<close>, and \<open>Call\<close> panics before any
  method has been invoked. (For a hook named exactly \<open>BeforeAll\<close> the claim holds:
  \<open>Run_BeforeAll_by_name\<close>.)
\<close>

theorem Run_BeforeAllSetup:
  "Run [\<lparr>name = ''BeforeAllSetup'', needs_args = False, body = b1\<rparr>,
        \<lparr>name = ''TestA'', needs_args = False, body = b2\<rparr>] s = (Panicked, [], s)"
  by (simp add: HasPrefix_def Run_def and_then_def Call_def MethodByName_def)

text \<open>
  Claim C9. The first loop of \<open>Run\<close> finds a hook by prefix, the call looks it up by
  its exact name. A value with a method whose name begins with \<open>BeforeAll\<close> and no
  method named \<open>BeforeAll\<close> makes \<open>Run\<close> panic before anything is invoked. A value
  with a method whose name begins with \<open>BeforeEach\<close>, no method named \<open>BeforeEach\<close>,
  no \<open>BeforeAll\<close> hook and at least one test operation makes \<open>Run\<close> panic after the
  banner, before any test operation is invoked.
\<close>

theorem Run_hook_by_prefix_panics:
  "((\<exists>m \<in> set v. HasPrefix (name m) ''BeforeAll'') \<and> MethodByName v ''BeforeAll'' = None
      \<longrightarrow> Run v s = (Panicked, [], s)) \<and>
   ((\<exists>m \<in> set v. HasPrefix (name m) ''BeforeEach'') \<and> MethodByName v ''BeforeEach'' = None
      \<and> (\<forall>m \<in> set v. \<not> HasPrefix (name m) ''BeforeAll'') \<and> (\<exists>m \<in> set v. is_test m)
      \<longrightarrow> Run v s = (Panicked, [Printed banner], s))"
proof (intro conjI impI)
  assume "(\<exists>m \<in> set v. HasPrefix (name m) ''BeforeAll'') \<and> MethodByName v ''BeforeAll'' = None"
  then show "Run v s = (Panicked, [], s)"
    by (simp add: Run_eq Call_def and_then_def)
next
  assume a: "(\<exists>m \<in> set v. HasPrefix (name m) ''BeforeEach'') \<and> MethodByName v ''BeforeEach'' = None
      \<and> (\<forall>m \<in> set v. \<not> HasPrefix (name m) ''BeforeAll'') \<and> (\<exists>m \<in> set v. is_test m)"
  then have "run_tests v True v s = (Panicked, [], s)"
    by (simp add: run_tests_no_hook_method)
  with a show "Run v s = (Panicked, [Printed banner], s)"
    by (simp add: Run_eq and_then_def)
qed

theorem Run_hook_by_prefix_panics_witness:
  "Run [\<lparr>name = ''BeforeAllSetup'', needs_args = False, body = (\<lambda>s::unit. (Returned, s))\<rparr>] ()
     = (Panicked, [], ()) \<and>
   Run [\<lparr>name = ''BeforeEachDB'', needs_args = False, body = (\<lambda>s::unit. (Returned, s))\<rparr>,
        \<lparr>name = ''TestA'', needs_args = False, body = (\<lambda>s::unit. (Returned, s))\<rparr>] ()
     = (Panicked, [Printed banner], ())"
  using Run_hook_by_prefix_panics
          [of "[\<lparr>name = ''BeforeAllSetup'', needs_args = False, body = (\<lambda>s::unit. (Returned, s))\<rparr>]" "()"]
        Run_hook_by_prefix_panics
          [of "[\<lparr>name = ''BeforeEachDB'', needs_args = False, body = (\<lambda>s::unit. (Returned, s))\<rparr>,
                \<lparr>name = ''TestA'', needs_args = False, body = (\<lambda>s::unit. (Returned, s))\<rparr>]" "()"]
  by (simp add: HasPrefix_def MethodByName_def is_test_def)

section \<open>Dispatch without hooks\<close>

text \<open>
  Claim C4, amended. Take a value whose method names are distinct, none of them
  beginning with \<open>BeforeAll\<close> or \<open>BeforeEach\<close>, and whose test operations accept the
  empty argument list and return. Then \<open>Run\<close> returns; after its banner it invokes the
  test operations in the order of the enumeration and nothing else, so each test
  operation is invoked exactly once and no other method is invoked. With no test
  operation at all \<open>Run\<close> prints its banner, invokes nothing and leaves the state as it
  was.
\<close>

theorem Run_without_hooks:
  assumes "distinct (map name v)"
    and "\<forall>m \<in> set v. \<not> HasPrefix (name m) ''BeforeAll'' \<and> \<not> HasPrefix (name m) ''BeforeEach''"
    and "\<forall>m \<in> set v. is_test m \<longrightarrow> \<not> needs_args m \<and> (\<forall>s. fst (body m s) = Returned)"
  shows "result (Run v s) = Returned \<and>
     events (Run v s) = Printed banner # map (\<lambda>m. Invoked (name m)) (filter is_test v) \<and>
     (\<forall>m \<in> set v. count_list (events (Run v s)) (Invoked (name m)) = (if is_test m then 1 else 0)) \<and>
     ((\<forall>m \<in> set v. \<not> is_test m) \<longrightarrow> Run v s = (Returned, [Printed banner], s))"
proof -
  have run: "Run v s = and_then (Returned, [Printed banner], s) (run_tests v False v)"
    using assms(2) by (simp add: Run_eq and_then_def split: prod.splits)
  have loop: "result (run_tests v False v s) = Returned"
    "events (run_tests v False v s) = map (\<lambda>m. Invoked (name m)) (filter is_test v)"
    using run_tests_all_return [OF assms(1) subset_refl assms(3)] by simp_all
  have r: "result (Run v s) = Returned"
    using loop by (simp add: run result_and_then) (simp add: result_def)
  have e: "events (Run v s) = Printed banner # map (\<lambda>m. Invoked (name m)) (filter is_test v)"
    using loop by (simp add: run events_and_then) (simp add: result_def events_def)
  have c: "count_list (events (Run v s)) (Invoked (name m)) = (if is_test m then 1 else 0)"
    if "m \<in> set v" for m
  proof -
    have d: "distinct (map name (filter is_test v))"
      using assms(1) by (simp add: distinct_map_filter)
    have "count_list (events (Run v s)) (Invoked (name m))
            = count_list (map name (filter is_test v)) (name m)"
      using count_list_Invoked [of "map name (filter is_test v)" "name m"]
      by (simp add: e comp_def)
    also have "\<dots> = (if name m \<in> set (map name (filter is_test v)) then 1 else 0)"
      using d by (rule count_list_distinct)
    also have "\<dots> = (if is_test m then 1 else 0)"
      using that by (auto simp: is_test_def)
    finally show ?thesis .
  qed
  have z: "Run v s = (Returned, [Printed banner], s)" if "\<forall>m \<in> set v. \<not> is_test m"
    using run_tests_no_tests [OF that] by (simp add: run and_then_def)
  from r e c z show ?thesis by blast
qed

theorem Run_without_hooks_witness:
  "Run [\<lparr>name = ''Helper'', needs_args = False, body = AssertCreated 200\<rparr>,
        \<lparr>name = ''TestCreated'', needs_args = False, body = AssertCreated 201\<rparr>]
       \<lparr>failed = False, logged = []\<rparr>
     = (Returned, [Printed banner, Invoked ''TestCreated''], \<lparr>failed = False, logged = []\<rparr>)"
proof -
  let ?v = "[\<lparr>name = ''Helper'', needs_args = False, body = AssertCreated 200\<rparr>,
        \<lparr>name = ''TestCreated'', needs_args = False, body = AssertCreated 201\<rparr>]"
  let ?t = "\<lparr>failed = False, logged = []\<rparr>"
  have h1: "distinct (map name ?v)" by simp
  have h2: "\<forall>m \<in> set ?v. \<not> HasPrefix (name m) ''BeforeAll'' \<and> \<not> HasPrefix (name m) ''BeforeEach''"
    by (simp add: HasPrefix_def)
  have h3: "\<forall>m \<in> set ?v. is_test m \<longrightarrow> \<not> needs_args m \<and> (\<forall>s. fst (body m s) = Returned)"
    by (simp add: is_test_def HasPrefix_def AssertCreated_def StatusCreated_def)
  have "result (Run ?v ?t) = Returned"
    "events (Run ?v ?t) = Printed banner # map (\<lambda>m. Invoked (name m)) (filter is_test ?v)"
    using Run_without_hooks [OF h1 h2 h3, of ?t] by blast+
  moreover have "snd (snd (Run ?v ?t)) = ?t"
    by (simp add: Run_def HasPrefix_def and_then_def Call_def MethodByName_def
        AssertCreated_def StatusCreated_def)
  ultimately show ?thesis
    by (cases "Run ?v ?t") (simp add: result_def events_def is_test_def HasPrefix_def)
qed

text \<open>
  Claim C4 as stated fails when a test operation does not return: \<open>TestOne\<close> calls
  \<open>AssertCreated(200)\<close>, the goroutine exits inside it, and \<open>TestTwo\<close> is not invoked.
\<close>

theorem Run_without_hooks_counterexample:
  "Run [\<lparr>name = ''TestOne'', needs_args = False, body = AssertCreated 200\<rparr>,
        \<lparr>name = ''TestTwo'', needs_args = False, body = AssertCreated 201\<rparr>]
       \<lparr>failed = False, logged = []\<rparr>
     = (Goexit, [Printed banner, Invoked ''TestOne''],
        \<lparr>failed = True, logged = [''Expected 201, got 200'']\<rparr>) \<and>
   count_list
     (events (Run [\<lparr>name = ''TestOne'', needs_args = False, body = AssertCreated 200\<rparr>,
                   \<lparr>name = ''TestTwo'', needs_args = False, body = AssertCreated 201\<rparr>]
                  \<lparr>failed = False, logged = []\<rparr>))
     (Invoked ''TestTwo'') = 0"
  by (simp add: Run_def HasPrefix_def and_then_def Call_def MethodByName_def
        AssertCreated_def StatusCreated_def Fatalf_def fmt_d_def decimal.simps events_def)

section \<open>A failed assertion ends the dispatch\<close>

text \<open>
  Claim C1, amended. \<open>Fatalf\<close> ends the goroutine that \<open>Run\<close> itself runs on. Let the
  method names of the value be distinct and let \<open>m\<close> be a test operation, the methods
  \<open>xs\<close> before it in the enumeration and \<open>ys\<close> after it; with \<open>i\<close> test operations
  in \<open>xs\<close>, \<open>m\<close> is the \<open>i\<close>-th one (counting from 0) and the test operations of \<open>ys\<close>
  are the later ones. If this dispatch call reaches \<open>m\<close> and \<open>m\<close>, started in the
  state reached, leaves through the fail primitive, then \<open>Run\<close> ends with that exit,
  \<open>m\<close> is the last method it invoked, and no test operation of \<open>ys\<close> is invoked, with
  or without hooks. Nothing is assumed about \<open>m\<close> in other states.
\<close>

theorem Run_stops_at_aborted_test:
  assumes "distinct (map name v)" and "v = xs @ m # ys" and "is_test m"
    and "\<not> needs_args m"
    and "result (before_call v xs s) = Returned"
    and "fst (body m (snd (snd (before_call v xs s)))) = Goexit"
  shows "result (Run v s) = Goexit \<and>
         events (Run v s) = events (before_call v xs s) @ [Invoked (name m)] \<and>
         (\<forall>m' \<in> set ys. is_test m' \<longrightarrow> Invoked (name m') \<notin> set (events (Run v s)))"
proof -
  let ?be = "\<exists>m \<in> set v. HasPrefix (name m) ''BeforeEach''"
  let ?st = "snd (snd (before_call v xs s))"
  have call: "Call (Some m) ?st = (Goexit, [Invoked (name m)], snd (body m ?st))"
    using assms(4,6) by (simp add: Call_Some)
  have stop: "and_then (Call (Some m) ?st) (run_tests v ?be ys)
                = (Goexit, [Invoked (name m)], snd (body m ?st))"
    by (simp add: call and_then_def)
  have run: "Run v s = and_then (before_call v xs s)
       (\<lambda>s'. and_then (Call (Some m) s') (run_tests v ?be ys))"
    using Run_split [OF assms(1,2,3)] .
  have r: "result (Run v s) = Goexit"
    using assms(5) by (simp add: run result_and_then stop) (simp add: result_def)
  have e: "events (Run v s) = events (before_call v xs s) @ [Invoked (name m)]"
    using assms(5) by (simp add: run events_and_then stop) (simp add: events_def)
  have later: "Invoked (name m') \<notin> set (events (Run v s))"
    if m': "m' \<in> set ys" "is_test m'" for m'
  proof -
    have p: "HasPrefix (name m') ''Test''" using m'(2) by (simp add: is_test_def)
    then have n1: "name m' \<noteq> ''BeforeAll''" "name m' \<noteq> ''BeforeEach''"
      by (auto simp: HasPrefix_def)
    have d: "distinct (map name xs @ name m # map name ys)"
      using assms(1) by (simp add: assms(2))
    have "name m' \<in> name ` set ys" using m'(1) by simp
    with d have n2: "name m' \<noteq> name m" "name m' \<notin> name ` set xs"
      by auto
    have "Invoked (name m') \<notin> set (events (before_call v xs s))"
      using before_call_events [of v xs s] n1 n2 by auto
    with n2(1) show ?thesis by (simp add: e)
  qed
  from r e later show ?thesis by blast
qed

theorem Run_stops_at_aborted_test_witness:
  "Run [\<lparr>name = ''TestFirst'', needs_args = False, body = AssertCreated 201\<rparr>,
        \<lparr>name = ''TestFlaky'', needs_args = False,
          body = (\<lambda>t. AssertCreated (if failed t then 201 else 200) t)\<rparr>,
        \<lparr>name = ''TestLater'', needs_args = False, body = AssertCreated 201\<rparr>]
       \<lparr>failed = False, logged = []\<rparr>
     = (Goexit, [Printed banner, Invoked ''TestFirst'', Invoked ''TestFlaky''],
        \<lparr>failed = True, logged = [''Expected 201, got 200'']\<rparr>)"
proof -
  let ?first = "\<lparr>name = ''TestFirst'', needs_args = False, body = AssertCreated 201\<rparr>"
  let ?flaky = "\<lparr>name = ''TestFlaky'', needs_args = False,
          body = (\<lambda>t. AssertCreated (if failed t then 201 else 200) t)\<rparr>"
  let ?later = "\<lparr>name = ''TestLater'', needs_args = False, body = AssertCreated 201\<rparr>"
  let ?v = "[?first, ?flaky, ?later]"
  let ?t = "\<lparr>failed = False, logged = []\<rparr>"
  have b: "before_call ?v [?first] ?t = (Returned, [Printed banner, Invoked ''TestFirst''], ?t)"
    by (simp add: before_call_def HasPrefix_def and_then_def Call_def MethodByName_def
        AssertCreated_def StatusCreated_def)
  have h1: "distinct (map name ?v)" by simp
  have h2: "?v = [?first] @ ?flaky # [?later]" by simp
  have h3: "is_test ?flaky" by (simp add: is_test_def HasPrefix_def)
  have h4: "\<not> needs_args ?flaky" by simp
  have h5: "result (before_call ?v [?first] ?t) = Returned"
    by (simp add: b result_def)
  have h6: "fst (body ?flaky (snd (snd (before_call ?v [?first] ?t)))) = Goexit"
    unfolding b by (simp add: AssertCreated_def StatusCreated_def Fatalf_def)
  have "result (Run ?v ?t) = Goexit"
    "events (Run ?v ?t) = events (before_call ?v [?first] ?t) @ [Invoked (name ?flaky)]"
    using Run_stops_at_aborted_test [OF h1 h2 h3 h4 h5 h6] by blast+
  moreover have "snd (snd (Run ?v ?t)) = \<lparr>failed = True, logged = [''Expected 201, got 200'']\<rparr>"
    by (simp add: Run_def HasPrefix_def and_then_def Call_def MethodByName_def
        AssertCreated_def StatusCreated_def Fatalf_def fmt_d_def decimal.simps)
  ultimately show ?thesis
    by (cases "Run ?v ?t") (simp add: result_def events_def b)
qed

text \<open>
  Claim C1 as stated fails: \<open>TestBroken\<close> calls \<open>Assert(false)\<close>, whose \<open>Fatalf\<close> ends
  the goroutine, and \<open>TestLater\<close> is never invoked.
\<close>

theorem Run_continues_counterexample:
  "Run [\<lparr>name = ''TestBroken'', needs_args = False,
         body = Assert (\<lambda>r. False)
                  [\<lparr>frame_file = ''/home/u/go/src/github.com/rendon/asserting/asserting.go'',
                     frame_line = 410,
                     frame_func = Some ''github.com/rendon/asserting.CallerInfo''\<rparr>,
                   \<lparr>frame_file = ''/home/u/go/src/github.com/rendon/asserting/asserting.go'',
                     frame_line = 236,
                     frame_func = Some ''github.com/rendon/asserting.TestCase.Assert''\<rparr>,
                   \<lparr>frame_file = ''/home/u/go/src/shop/shop_test.go'',
                     frame_line = 76,
                     frame_func = Some ''shop.Suite.TestBroken''\<rparr>]
                  False\<rparr>,
        \<lparr>name = ''TestLater'', needs_args = False, body = (\<lambda>t. (Returned, t))\<rparr>]
       \<lparr>failed = False, logged = []\<rparr>
     = (Goexit, [Printed banner, Invoked ''TestBroken''],
        \<lparr>failed = True, logged = [''Expected true, got false [shop_test.go:76]'']\<rparr>) \<and>
   Invoked ''TestLater'' \<notin> set [Printed banner, Invoked ''TestBroken'']"
  by (simp add: Run_def HasPrefix_def and_then_def Call_def MethodByName_def
        Assert_def CallerInfo_def isTest_def IsLower_def last_caller_def
        Fatalf_def fmt_d_def decimal.simps)

section \<open>The hook before each test\<close>

text \<open>
  Claim C6, amended. Take a value with a method named exactly \<open>BeforeEach\<close> that
  accepts the empty argument list and returns whenever it is called, and whose test
  operations accept the empty argument list. Then what \<open>Run\<close> does after the optional
  \<open>BeforeAll\<close> and the banner is a sequence of pairs, \<open>BeforeEach\<close> followed by a test
  operation, for the first \<open>k\<close> test operations of the enumeration: the hook is invoked
  once immediately before each test operation that is run, and as many times as test
  operations are run.
\<close>

theorem Run_with_BeforeEach:
  assumes "MethodByName v ''BeforeEach'' = Some h" and "\<not> needs_args h"
    and "\<forall>s. fst (body h s) = Returned"
    and "\<forall>m \<in> set v. is_test m \<longrightarrow> \<not> needs_args m"
  shows "\<exists>pre k.
     events (Run v s)
       = pre @ concat (map (\<lambda>m. [Invoked ''BeforeEach'', Invoked (name m)])
                         (take k (filter is_test v))) \<and>
     set pre \<subseteq> {Invoked ''BeforeAll'', Printed banner} \<and>
     count_list (events (Run v s)) (Invoked ''BeforeEach'')
       = length (filter is_test_event (events (Run v s)))"
proof -
  let ?pairs = "\<lambda>k. concat (map (\<lambda>m. [Invoked ''BeforeEach'', Invoked (name m)])
                         (take k (filter is_test v)))"
  define r0 where "r0 = (if \<exists>m \<in> set v. HasPrefix (name m) ''BeforeAll''
             then Call (MethodByName v ''BeforeAll'') s else (Returned, [], s))"
  have "h \<in> set v" "name h = ''BeforeEach''"
    using MethodByName_Some [OF assms(1)] by simp_all
  moreover have "HasPrefix ''BeforeEach'' ''BeforeEach''"
    by (simp add: HasPrefix_def)
  ultimately have be: "\<exists>m \<in> set v. HasPrefix (name m) ''BeforeEach''"
    by metis
  have r0: "set (events r0) \<subseteq> {Invoked ''BeforeAll''}"
    using events_Call_subset [of v "''BeforeAll''" s] by (auto simp: r0_def events_def)
  obtain k where k: "events (run_tests v True v (snd (snd r0))) = ?pairs k"
    using run_tests_with_hook [OF assms subset_refl] by blast
  have run: "Run v s = and_then r0 (\<lambda>s1. and_then (Returned, [Printed banner], s1)
          (run_tests v True v))"
    using be by (simp add: Run_eq r0_def)
  have ev: "events (Run v s)
              = (if result r0 = Returned then (events r0 @ [Printed banner]) @ ?pairs k
                 else events r0 @ ?pairs 0)"
    using k by (simp add: run events_and_then) (simp add: result_def events_def)
  obtain pre k' where shape: "events (Run v s) = pre @ ?pairs k'"
    and pre: "set pre \<subseteq> {Invoked ''BeforeAll'', Printed banner}"
  proof (cases "result r0 = Returned")
    case True
    show ?thesis
    proof (rule that)
      show "events (Run v s) = (events r0 @ [Printed banner]) @ ?pairs k"
        by (simp only: ev True if_True simp_thms)
      show "set (events r0 @ [Printed banner]) \<subseteq> {Invoked ''BeforeAll'', Printed banner}"
        using r0 by auto
    qed
  next
    case False
    show ?thesis
    proof (rule that)
      show "events (Run v s) = events r0 @ ?pairs 0"
        by (simp only: ev False if_False simp_thms)
      show "set (events r0) \<subseteq> {Invoked ''BeforeAll'', Printed banner}"
        using r0 by auto
    qed
  qed
  have tests: "\<forall>m \<in> set (take k' (filter is_test v)). is_test m"
    by (auto dest: in_set_takeD)
  have p0: "count_list pre (Invoked ''BeforeEach'') = 0"
    using pre by (auto simp: count_list_0_iff)
  have p1: "filter is_test_event pre = []"
    using pre by (auto simp: filter_empty_conv HasPrefix_def)
  have "count_list (events (Run v s)) (Invoked ''BeforeEach'')
          = length (filter is_test_event (events (Run v s)))"
    using count_hook_pairs [OF tests] by (simp add: shape p0 p1)
  with shape pre show ?thesis by blast
qed

theorem Run_with_BeforeEach_witness:
  "count_list
     (events (Run [\<lparr>name = ''BeforeEach'', needs_args = False, body = (\<lambda>t. (Returned, t))\<rparr>,
                   \<lparr>name = ''TestA'', needs_args = False, body = AssertCreated 201\<rparr>,
                   \<lparr>name = ''TestB'', needs_args = False, body = AssertCreated 200\<rparr>]
                  \<lparr>failed = False, logged = []\<rparr>))
     (Invoked ''BeforeEach'')
   = length (filter is_test_event
     (events (Run [\<lparr>name = ''BeforeEach'', needs_args = False, body = (\<lambda>t. (Returned, t))\<rparr>,
                   \<lparr>name = ''TestA'', needs_args = False, body = AssertCreated 201\<rparr>,
                   \<lparr>name = ''TestB'', needs_args = False, body = AssertCreated 200\<rparr>]
                  \<lparr>failed = False, logged = []\<rparr>)))"
proof -
  let ?h = "\<lparr>name = ''BeforeEach'', needs_args = False, body = (\<lambda>t::T. (Returned, t))\<rparr>"
  let ?v = "[?h, \<lparr>name = ''TestA'', needs_args = False, body = AssertCreated 201\<rparr>,
                 \<lparr>name = ''TestB'', needs_args = False, body = AssertCreated 200\<rparr>]"
  have h1: "MethodByName ?v ''BeforeEach'' = Some ?h" by (simp add: MethodByName_def)
  have h2: "\<not> needs_args ?h" by simp
  have h3: "\<forall>s. fst (body ?h s) = Returned" by simp
  have h4: "\<forall>m \<in> set ?v. is_test m \<longrightarrow> \<not> needs_args m" by simp
  show ?thesis
    using Run_with_BeforeEach [OF h1 h2 h3 h4, of "\<lparr>failed = False, logged = []\<rparr>"] by blast
qed

text \<open>
  Claim C6 as stated fails when the hook itself does not return: \<open>BeforeEach\<close> fails an
  assertion, the goroutine exits, the hook has been invoked once and no test operation
  has been run.
\<close>

theorem Run_with_BeforeEach_counterexample:
  "Run [\<lparr>name = ''BeforeEach'', needs_args = False, body = AssertCreated 500\<rparr>,
        \<lparr>name = ''TestA'', needs_args = False, body = AssertCreated 201\<rparr>]
       \<lparr>failed = False, logged = []\<rparr>
     = (Goexit, [Printed banner, Invoked ''BeforeEach''],
        \<lparr>failed = True, logged = [''Expected 201, got 500'']\<rparr>) \<and>
   count_list [Printed banner, Invoked ''BeforeEach''] (Invoked ''BeforeEach'') = 1 \<and>
   length (filter is_test_event [Printed banner, Invoked ''BeforeEach'']) = 0"
  by (simp add: Run_def HasPrefix_def and_then_def Call_def MethodByName_def
        AssertCreated_def StatusCreated_def Fatalf_def fmt_d_def decimal.simps)

section \<open>The result of the attribution\<close>

text \<open>
  Claim C2, amended. Take a call stack whose walked frames all have a file path with a
  directory (or are the \<open><autogenerated>\<close> sentinel). When the walk meets a stopping
  frame, \<open>CallerInfo\<close> returns the last token accumulated up to and including that
  frame, or the empty string when none was accumulated. When the walk runs off the end
  of the stack without meeting a stopping frame, \<open>CallerInfo\<close> returns the empty string
  whatever was accumulated. When every walked frame is excluded the result is empty.
\<close>

theorem CallerInfo_result:
  "((\<forall>f \<in> set (walked tab stack). frame_file f = ''<autogenerated>'' \<or> has_dir f) \<longrightarrow>
      CallerInfo tab stack
        = Inr (if \<exists>f \<in> set stack. stops tab f
               then last_or_empty (accumulated tab stack) else [])) \<and>
   ((\<forall>f \<in> set (walked tab stack). excluded f) \<longrightarrow> CallerInfo tab stack = Inr [])"
proof (intro conjI impI)
  assume "\<forall>f \<in> set (walked tab stack). frame_file f = ''<autogenerated>'' \<or> has_dir f"
  from walk_eq [OF this, of "[]"]
  show "CallerInfo tab stack
        = Inr (if \<exists>f \<in> set stack. stops tab f
               then last_or_empty (accumulated tab stack) else [])"
    by (simp add: CallerInfo_def)
next
  assume a: "\<forall>f \<in> set (walked tab stack). excluded f"
  then have "\<forall>f \<in> set (walked tab stack). frame_file f = ''<autogenerated>'' \<or> has_dir f"
    by (auto simp: excluded_def)
  from walk_eq [OF this, of "[]"] accumulated_all_excluded [OF a]
  show "CallerInfo tab stack = Inr []"
    by (simp add: CallerInfo_def last_or_empty_def)
qed

theorem CallerInfo_result_witness:
  "CallerInfo (\<lambda>r. False)
     [\<lparr>frame_file = ''/home/u/go/src/github.com/rendon/asserting/asserting.go'',
        frame_line = 410,
        frame_func = Some ''github.com/rendon/asserting.CallerInfo''\<rparr>,
      \<lparr>frame_file = ''/home/u/go/src/github.com/rendon/asserting/asserting.go'',
        frame_line = 236,
        frame_func = Some ''github.com/rendon/asserting.TestCase.Assert''\<rparr>,
      \<lparr>frame_file = ''/home/u/go/src/shop/shop_test.go'',
        frame_line = 76,
        frame_func = Some ''shop.Suite.TestCheckout''\<rparr>] = Inr ''shop_test.go:76'' \<and>
   CallerInfo (\<lambda>r. False)
     [\<lparr>frame_file = ''/home/u/go/src/github.com/acme/kit/assert/assertions.go'',
        frame_line = 260,
        frame_func = Some ''github.com/acme/kit/assert.Fail''\<rparr>,
      \<lparr>frame_file = ''/home/u/go/src/github.com/acme/kit/assert/assertions_test.go'',
        frame_line = 21,
        frame_func = Some ''github.com/acme/kit/assert.TestEqual''\<rparr>] = Inr []"
  using CallerInfo_result [of "(\<lambda>r. False)"
     "[\<lparr>frame_file = ''/home/u/go/src/github.com/rendon/asserting/asserting.go'',
        frame_line = 410,
        frame_func = Some ''github.com/rendon/asserting.CallerInfo''\<rparr>,
      \<lparr>frame_file = ''/home/u/go/src/github.com/rendon/asserting/asserting.go'',
        frame_line = 236,
        frame_func = Some ''github.com/rendon/asserting.TestCase.Assert''\<rparr>,
      \<lparr>frame_file = ''/home/u/go/src/shop/shop_test.go'',
        frame_line = 76,
        frame_func = Some ''shop.Suite.TestCheckout''\<rparr>]"]
    CallerInfo_result [of "(\<lambda>r. False)"
     "[\<lparr>frame_file = ''/home/u/go/src/github.com/acme/kit/assert/assertions.go'',
        frame_line = 260,
        frame_func = Some ''github.com/acme/kit/assert.Fail''\<rparr>,
      \<lparr>frame_file = ''/home/u/go/src/github.com/acme/kit/assert/assertions_test.go'',
        frame_line = 21,
        frame_func = Some ''github.com/acme/kit/assert.TestEqual''\<rparr>]"]
  by (simp add: walked_def accumulated_def stops_def entry_point_def excluded_def has_dir_def
      frame_dir_def frame_base_def internal_dir_def token_def last_or_empty_def isTest_def
      HasPrefix_def IsLower_def fmt_d_def decimal.simps)

text \<open>
  Claim C2 as stated fails on a stack without a stopping frame, such as the stack of a
  goroutine started by a test: four tokens are accumulated, then \<open>runtime.Caller\<close>
  reports \<open>ok = false\<close> and \<open>CallerInfo\<close> returns the empty string.
\<close>

theorem CallerInfo_result_counterexample:
  "CallerInfo (\<lambda>r. False)
     [\<lparr>frame_file = ''/home/u/go/src/github.com/rendon/asserting/asserting.go'',
        frame_line = 410,
        frame_func = Some ''github.com/rendon/asserting.CallerInfo''\<rparr>,
      \<lparr>frame_file = ''/home/u/go/src/github.com/rendon/asserting/asserting.go'',
        frame_line = 236,
        frame_func = Some ''github.com/rendon/asserting.TestCase.Assert''\<rparr>,
      \<lparr>frame_file = ''/home/u/go/src/shop/worker.go'',
        frame_line = 17,
        frame_func = Some ''shop.startWorker.func1''\<rparr>,
      \<lparr>frame_file = ''/usr/local/go/src/runtime/asm_amd64.s'',
        frame_line = 1337,
        frame_func = Some ''runtime.goexit''\<rparr>] = Inr [] \<and>
   accumulated (\<lambda>r. False)
     [\<lparr>frame_file = ''/home/u/go/src/github.com/rendon/asserting/asserting.go'',
        frame_line = 410,
        frame_func = Some ''github.com/rendon/asserting.CallerInfo''\<rparr>,
      \<lparr>frame_file = ''/home/u/go/src/github.com/rendon/asserting/asserting.go'',
        frame_line = 236,
        frame_func = Some ''github.com/rendon/asserting.TestCase.Assert''\<rparr>,
      \<lparr>frame_file = ''/home/u/go/src/shop/worker.go'',
        frame_line = 17,
        frame_func = Some ''shop.startWorker.func1''\<rparr>,
      \<lparr>frame_file = ''/usr/local/go/src/runtime/asm_amd64.s'',
        frame_line = 1337,
        frame_func = Some ''runtime.goexit''\<rparr>]
     = [''asserting.go:410'', ''asserting.go:236'', ''worker.go:17'', ''asm_amd64.s:1337'']"
  by (simp add: CallerInfo_def walked_def accumulated_def stops_def entry_point_def
      excluded_def has_dir_def frame_dir_def frame_base_def internal_dir_def token_def
      last_or_empty_def isTest_def HasPrefix_def IsLower_def fmt_d_def decimal.simps
      last_caller_def)

section \<open>Attribution to the user's frame\<close>

text \<open>
  Claim C3, amended. Frame 0 of every stack that \<open>CallerInfo\<close> reads is its own frame
  \<open>c\<close>, in whatever directory the package lies; it has a directory and does not stop
  the walk. If the next \<open>k\<close> frames lie in the directories \<open>assert\<close>, \<open>mock\<close> or
  \<open>require\<close>, have function information and are not entry points, and frame \<open>k+1\<close> lies
  in another directory and is an entry point, then \<open>CallerInfo\<close> returns the token of
  frame \<open>k+1\<close>, whatever the frames beyond it are.
\<close>

theorem CallerInfo_user_frame:
  assumes "has_dir c" and "\<not> stops tab c"
    and "\<forall>f \<in> set inner. has_dir f \<and> internal_dir (frame_dir f) \<and> \<not> stops tab f"
    and "has_dir u" and "\<not> internal_dir (frame_dir u)" and "entry_point tab u"
  shows "CallerInfo tab (c # inner @ u # outer) = Inr (token u)"
proof -
  have "\<forall>f \<in> set (c # inner). has_dir f \<and> \<not> stops tab f"
    using assms(1,2,3) by simp
  from walk_to_entry_point [OF assms(4,5,6) this, of outer "[]"]
  show ?thesis by (simp add: CallerInfo_def)
qed

theorem CallerInfo_user_frame_witness:
  "CallerInfo (\<lambda>r. False)
     [\<lparr>frame_file = ''/home/u/go/src/github.com/rendon/asserting/asserting.go'',
        frame_line = 410,
        frame_func = Some ''github.com/rendon/asserting.CallerInfo''\<rparr>,
      \<lparr>frame_file = ''/home/u/go/src/github.com/acme/kit/assert/assertions.go'',
        frame_line = 260,
        frame_func = Some ''github.com/acme/kit/assert.Fail''\<rparr>,
      \<lparr>frame_file = ''/home/u/go/src/github.com/acme/kit/assert/assertions.go'',
        frame_line = 330,
        frame_func = Some ''github.com/acme/kit/assert.Equal''\<rparr>,
      \<lparr>frame_file = ''/home/u/go/src/shop/shop_test.go'',
        frame_line = 76,
        frame_func = Some ''shop.TestCheckout''\<rparr>,
      \<lparr>frame_file = ''/usr/local/go/src/testing/testing.go'',
        frame_line = 610,
        frame_func = Some ''testing.tRunner''\<rparr>] = Inr ''shop_test.go:76''"
  using CallerInfo_user_frame [of
     "\<lparr>frame_file = ''/home/u/go/src/github.com/rendon/asserting/asserting.go'',
        frame_line = 410,
        frame_func = Some ''github.com/rendon/asserting.CallerInfo''\<rparr>"
     "(\<lambda>r. False)"
     "[\<lparr>frame_file = ''/home/u/go/src/github.com/acme/kit/assert/assertions.go'',
        frame_line = 260,
        frame_func = Some ''github.com/acme/kit/assert.Fail''\<rparr>,
      \<lparr>frame_file = ''/home/u/go/src/github.com/acme/kit/assert/assertions.go'',
        frame_line = 330,
        frame_func = Some ''github.com/acme/kit/assert.Equal''\<rparr>]"
     "\<lparr>frame_file = ''/home/u/go/src/shop/shop_test.go'',
        frame_line = 76,
        frame_func = Some ''shop.TestCheckout''\<rparr>"
     "[\<lparr>frame_file = ''/usr/local/go/src/testing/testing.go'',
        frame_line = 610,
        frame_func = Some ''testing.tRunner''\<rparr>]"]
  by (simp add: stops_def entry_point_def has_dir_def
      frame_dir_def frame_base_def internal_dir_def token_def isTest_def
      HasPrefix_def IsLower_def fmt_d_def decimal.simps)

text \<open>
  Claim C3 as stated fails when a frame of an internal directory is itself an entry
  point by name: the walk stops there, the user's frame behind it is never reached, and
  the result is the token of \<open>CallerInfo\<close>'s own frame, the only one accumulated.
\<close>

theorem CallerInfo_user_frame_counterexample:
  "internal_dir (frame_dir
     \<lparr>frame_file = ''/home/u/go/src/github.com/acme/kit/assert/reporter.go'',
        frame_line = 40,
        frame_func = Some ''github.com/acme/kit/assert.TestReporter''\<rparr>) \<and>
   \<not> internal_dir (frame_dir
     \<lparr>frame_file = ''/home/u/go/src/shop/shop_test.go'',
        frame_line = 76,
        frame_func = Some ''shop.TestCheckout''\<rparr>) \<and>
   entry_point (\<lambda>r. False)
     \<lparr>frame_file = ''/home/u/go/src/shop/shop_test.go'',
        frame_line = 76,
        frame_func = Some ''shop.TestCheckout''\<rparr> \<and>
   token
     \<lparr>frame_file = ''/home/u/go/src/shop/shop_test.go'',
        frame_line = 76,
        frame_func = Some ''shop.TestCheckout''\<rparr> = ''shop_test.go:76'' \<and>
   CallerInfo (\<lambda>r. False)
     [\<lparr>frame_file = ''/home/u/go/src/github.com/rendon/asserting/asserting.go'',
        frame_line = 410,
        frame_func = Some ''github.com/rendon/asserting.CallerInfo''\<rparr>,
      \<lparr>frame_file = ''/home/u/go/src/github.com/acme/kit/assert/reporter.go'',
        frame_line = 40,
        frame_func = Some ''github.com/acme/kit/assert.TestReporter''\<rparr>,
      \<lparr>frame_file = ''/home/u/go/src/shop/shop_test.go'',
        frame_line = 76,
        frame_func = Some ''shop.TestCheckout''\<rparr>] = Inr ''asserting.go:410''"
  by (simp add: CallerInfo_def stops_def entry_point_def
      excluded_def has_dir_def frame_dir_def frame_base_def internal_dir_def token_def
      last_or_empty_def isTest_def HasPrefix_def IsLower_def fmt_d_def decimal.simps
      last_caller_def)

end
